theory Spec2Isabelle
  imports Main
begin

section \<open>Strings and the library calls of \<^verbatim>\<open>main.go\<close>\<close>

text \<open>
  A Go string is a sequence of bytes and \<^verbatim>\<open>len\<close> counts bytes, so a Go string is a
  \<^typ>\<open>string\<close> here (a list of 8-bit characters). Go's \<^verbatim>\<open>int\<close> is modelled as
  \<^typ>\<open>int\<close>: the numbers of the program are lengths, column counts and the terminal
  width. The 64-bit bounds and the size of the memory are not part of the model: an
  addition does not wrap around, and an allocation fails only on a negative length.

  \<^verbatim>\<open>unicode.IsSpace\<close> holds of the code points U+0009..U+000D, U+0020, U+0085, U+00A0,
  U+1680, U+2000..U+200A, U+2028, U+2029, U+202F, U+205F and U+3000. \<open>isSpaceEnc\<close> holds of
  the UTF-8 encodings of exactly these. Every one of them starts with a byte that cannot
  continue another code point, so matching the encodings on the bytes, left to right,
  finds the same white space as decoding the string does.
\<close>

definition isSpaceEnc :: "string \<Rightarrow> bool" where
  "isSpaceEnc bs =
     (case bs of
        [a] \<Rightarrow> a = CHR 0x09 \<or> a = CHR 0x0A \<or> a = CHR 0x0B \<or> a = CHR 0x0C \<or> a = CHR 0x0D
                 \<or> a = CHR 0x20
      | [a, b] \<Rightarrow> a = CHR 0xC2 \<and> (b = CHR 0x85 \<or> b = CHR 0xA0)
      | [a, b, c] \<Rightarrow>
          (a = CHR 0xE1 \<and> b = CHR 0x9A \<and> c = CHR 0x80)
          \<or> (a = CHR 0xE2 \<and> b = CHR 0x80
               \<and> ((of_char c :: nat) \<in> {0x80..0x8A} \<or> c = CHR 0xA8 \<or> c = CHR 0xA9 \<or> c = CHR 0xAF))
          \<or> (a = CHR 0xE2 \<and> b = CHR 0x81 \<and> c = CHR 0x9F)
          \<or> (a = CHR 0xE3 \<and> b = CHR 0x80 \<and> c = CHR 0x80)
      | _ \<Rightarrow> False)"

text \<open>The number of bytes of the white-space code point a string starts with (ends with);
  0 when it starts (ends) with none.\<close>

definition spaceLen :: "string \<Rightarrow> nat" where
  "spaceLen s =
     (if isSpaceEnc (take 1 s) then 1
      else if isSpaceEnc (take 2 s) then 2
      else if isSpaceEnc (take 3 s) then 3 else 0)"

definition spaceLenEnd :: "string \<Rightarrow> nat" where
  "spaceLenEnd s =
     (if isSpaceEnc (drop (length s - 1) s) then 1
      else if isSpaceEnc (drop (length s - 2) s) then 2
      else if isSpaceEnc (drop (length s - 3) s) then 3 else 0)"

text \<open>\<^verbatim>\<open>strings.TrimSpace\<close>: all leading and trailing white space removed.\<close>

function trimLeft :: "string \<Rightarrow> string" where
  "trimLeft s = (if spaceLen s = 0 \<or> s = [] then s else trimLeft (drop (spaceLen s) s))"
  by pat_completeness auto
termination
  by (relation "measure length") auto

function trimRight :: "string \<Rightarrow> string" where
  "trimRight s =
     (if spaceLenEnd s = 0 \<or> s = [] then s else trimRight (take (length s - spaceLenEnd s) s))"
  by pat_completeness auto
termination
  by (relation "measure length") auto

definition TrimSpace :: "string \<Rightarrow> string" where
  "TrimSpace s = trimRight (trimLeft s)"

text \<open>\<^verbatim>\<open>strings.Fields\<close>: the maximal runs of bytes between white space, in order; no
  field is empty. \<open>fieldsFrom w s\<close> scans \<open>s\<close> with the field \<open>w\<close> read so far.\<close>

function fieldsFrom :: "string \<Rightarrow> string \<Rightarrow> string list" where
  "fieldsFrom w [] = (if w = [] then [] else [w])"
| "fieldsFrom w (c # cs) =
     (if spaceLen (c # cs) = 0 then fieldsFrom (w @ [c]) cs
      else (if w = [] then [] else [w]) @ fieldsFrom [] (drop (spaceLen (c # cs)) (c # cs)))"
  by pat_completeness auto
termination
  by (relation "measure (\<lambda>(w, s). length s)") auto

definition Fields :: "string \<Rightarrow> string list" where
  "Fields s = fieldsFrom [] s"

text \<open>\<^verbatim>\<open>strings.Repeat(s, count)\<close> for \<open>count \<ge> 0\<close> (it panics on a negative count; every
  call of the program passes a count that is not negative).\<close>

definition Repeat :: "string \<Rightarrow> nat \<Rightarrow> string" where
  "Repeat s count = concat (replicate count s)"

text \<open>\<^verbatim>\<open>utf8.RuneCountInString\<close>, which \<^verbatim>\<open>fmt\<close> uses to measure a string against a
  width. \<open>leadInfo\<close> is the table \<^verbatim>\<open>first\<close> of package \<^verbatim>\<open>utf8\<close>: for a leading byte
  the size of its encoding and the range accepted for the second byte; \<open>None\<close> for a byte
  that starts no multi-byte encoding. An invalid or short encoding counts as one code
  point of one byte.\<close>

definition leadInfo :: "nat \<Rightarrow> (nat \<times> nat \<times> nat) option" where
  "leadInfo b =
     (if b < 0xC2 then None
      else if b \<le> 0xDF then Some (2, 0x80, 0xBF)
      else if b = 0xE0 then Some (3, 0xA0, 0xBF)
      else if b \<le> 0xEC then Some (3, 0x80, 0xBF)
      else if b = 0xED then Some (3, 0x80, 0x9F)
      else if b \<le> 0xEF then Some (3, 0x80, 0xBF)
      else if b = 0xF0 then Some (4, 0x90, 0xBF)
      else if b \<le> 0xF3 then Some (4, 0x80, 0xBF)
      else if b = 0xF4 then Some (4, 0x80, 0x8F)
      else None)"

definition isCont :: "char \<Rightarrow> bool" where
  "isCont c = (0x80 \<le> (of_char c :: nat) \<and> (of_char c :: nat) \<le> 0xBF)"

definition runeSize :: "char \<Rightarrow> string \<Rightarrow> nat" where
  "runeSize c rest =
     (case leadInfo (of_char c) of
        None \<Rightarrow> 1
      | Some (sz, lo, hi) \<Rightarrow>
          if length rest < sz - 1 then 1
          else if \<not> (lo \<le> (of_char (rest ! 0) :: nat) \<and> (of_char (rest ! 0) :: nat) \<le> hi) then 1
          else if sz = 2 then 2
          else if \<not> isCont (rest ! 1) then 1
          else if sz = 3 then 3
          else if \<not> isCont (rest ! 2) then 1
          else 4)"

function runeCount :: "string \<Rightarrow> nat" where
  "runeCount [] = 0"
| "runeCount (c # rest) = 1 + runeCount (drop (runeSize c rest - 1) rest)"
  by pat_completeness auto
termination
  by (relation "measure length") auto

text \<open>\<^verbatim>\<open>strings.Replace(s, old, new, -1)\<close>: every occurrence of \<open>old\<close> in \<open>s\<close>, found from
  the left and not overlapping, replaced by \<open>new\<close>. For an empty \<open>old\<close> Go puts \<open>new\<close>
  before every code point and at the end.\<close>

function replaceFrom :: "string \<Rightarrow> string \<Rightarrow> string \<Rightarrow> string" where
  "replaceFrom old new [] = []"
| "replaceFrom old new (c # cs) =
     (if old \<noteq> [] \<and> take (length old) (c # cs) = old
      then new @ replaceFrom old new (drop (length old) (c # cs))
      else c # replaceFrom old new cs)"
  by pat_completeness auto
termination
  by (relation "measure (\<lambda>(old, new, s). length s)") auto

function runes :: "string \<Rightarrow> string list" where
  "runes [] = []"
| "runes (c # rest) =
     (c # take (runeSize c rest - 1) rest) # runes (drop (runeSize c rest - 1) rest)"
  by pat_completeness auto
termination
  by (relation "measure length") auto

definition Replace :: "string \<Rightarrow> string \<Rightarrow> string \<Rightarrow> string" where
  "Replace s old new =
     (if old = new then s
      else if old = [] then new @ concat (map (\<lambda>r. r @ new) (runes s))
      else replaceFrom old new s)"

text \<open>Go's integer division truncates towards zero. It panics on the divisor 0; the
  callers divide by 2, by 27, or test the divisor first.\<close>

definition go_div :: "int \<Rightarrow> int \<Rightarrow> int" where
  "go_div a b = (if (a < 0) = (b < 0) then \<bar>a\<bar> div \<bar>b\<bar> else - (\<bar>a\<bar> div \<bar>b\<bar>))"

section \<open>Text utilities\<close>

text \<open>\<^verbatim>\<open>center\<close>, lines 86-93.\<close>

definition center :: "string \<Rightarrow> int \<Rightarrow> string" where
  "center s width =
     (if int (length s) \<ge> width then s
      else let padding = go_div (width - int (length s)) 2;
               rightPadding = width - int (length s) - padding
           in Repeat '' '' (nat padding) @ s @ Repeat '' '' (nat rightPadding))"

text \<open>\<^verbatim>\<open>formatCell\<close>, lines 96-98: \<^verbatim>\<open>fmt.Sprintf("%-*s", width, s)\<close>. The string is
  padded with spaces on the right to \<open>width\<close> code points and never cut; a negative width
  counts by its absolute value, and a width beyond a million in absolute value is refused
  by \<^verbatim>\<open>fmt\<close>, which then prints its marker and the string unpadded.\<close>

definition formatCell :: "string \<Rightarrow> int \<Rightarrow> string" where
  "formatCell s width =
     (if width > 1000000 \<or> width < - 1000000 then ''%!(BADWIDTH)'' @ s
      else s @ replicate (nat (\<bar>width\<bar> - int (runeCount s))) (CHR '' ''))"

text \<open>\<^verbatim>\<open>wordWrap\<close>, lines 101-121. \<open>wrap_loop\<close> is the \<^verbatim>\<open>for _, word := range words\<close> loop
  with its two variables \<^verbatim>\<open>lines\<close> and \<^verbatim>\<open>currentLine\<close>, and the final append.\<close>

fun wrap_loop :: "string list \<Rightarrow> int \<Rightarrow> string list \<Rightarrow> string \<Rightarrow> string list" where
  "wrap_loop [] lineWidth lines currentLine = lines @ [currentLine]"
| "wrap_loop (word # words) lineWidth lines currentLine =
     (let (lines1, currentLine1) =
            (if int (length currentLine) + int (length word) + 1 > lineWidth
             then (lines @ [currentLine], [])
             else (lines, currentLine));
          currentLine2 = (if currentLine1 = [] then word else currentLine1 @ '' '' @ word)
      in wrap_loop words lineWidth lines1 currentLine2)"

definition wordWrap :: "string \<Rightarrow> int \<Rightarrow> string list" where
  "wordWrap text lineWidth =
     (let words = Fields (TrimSpace text)
      in if length words = 0 then [] else wrap_loop words lineWidth [] [])"

text \<open>The greedy reference of the specification: the words of a text packed onto lines,
  a word joining the line before it when the line, one space and the word fit in
  \<open>lineWidth\<close>; no line is empty.\<close>

fun greedy_line :: "int \<Rightarrow> string \<Rightarrow> string list \<Rightarrow> string list" where
  "greedy_line lineWidth cur [] = [cur]"
| "greedy_line lineWidth cur (w # ws) =
     (if int (length cur) + 1 + int (length w) \<le> lineWidth
      then greedy_line lineWidth (cur @ '' '' @ w) ws
      else cur # greedy_line lineWidth w ws)"

fun greedyWrap :: "string list \<Rightarrow> int \<Rightarrow> string list" where
  "greedyWrap [] lineWidth = []"
| "greedyWrap (w # ws) lineWidth = greedy_line lineWidth w ws"

section \<open>The dataset and \<^verbatim>\<open>main\<close>\<close>

record Shortcut =
  Key :: string
  Description :: string
  Category :: string

definition mk :: "string \<Rightarrow> string \<Rightarrow> string \<Rightarrow> Shortcut" where
  "mk k d c = \<lparr>Key = k, Description = d, Category = c\<rparr>"

text \<open>\<^verbatim>\<open>getStaticShortcuts\<close>, lines 19-65.\<close>

definition getStaticShortcuts :: "Shortcut list" where
  "getStaticShortcuts =
    [mk ''Prefix d'' ''Detach from session'' ''Sessions'',
     mk ''Prefix s'' ''List sessions'' ''Sessions'',
     mk ''Prefix $'' ''Rename session'' ''Sessions'',
     mk ''Prefix c'' ''Create new window'' ''Windows'',
     mk ''Prefix ,'' ''Rename window'' ''Windows'',
     mk ''Prefix w'' ''List windows'' ''Windows'',
     mk ''Prefix f'' ''Find window'' ''Windows'',
     mk ''Prefix &'' ''Kill window'' ''Windows'',
     mk ''Prefix .'' ''Move window'' ''Windows'',
     mk ''Prefix p'' ''Previous window'' ''Windows'',
     mk ''Prefix n'' ''Next window'' ''Windows'',
     mk ''Prefix 0-9'' ''Select window by number'' ''Windows'',
     mk ''Prefix l'' ''Last selected window'' ''Windows'',
     mk ''Prefix %'' ''Split horizontally'' ''Pane Splitting & Nav'',
     mk (''Prefix '' @ [CHR 0x22]) ''Split vertically'' ''Pane Splitting & Nav'',
     mk ''Prefix o'' ''Next pane'' ''Pane Splitting & Nav'',
     mk ''Prefix ;'' ''Last pane'' ''Pane Splitting & Nav'',
     mk ''Prefix Arrow'' ''Navigate panes'' ''Pane Splitting & Nav'',
     mk ''Prefix x'' ''Kill pane'' ''Pane Management'',
     mk ''Prefix {'' ''Move pane left'' ''Pane Management'',
     mk ''Prefix }'' ''Move pane right'' ''Pane Management'',
     mk ''Prefix Space'' ''Next layout'' ''Pane Management'',
     mk ''Prefix z'' ''Toggle zoom pane'' ''Pane Management'',
     mk ''Prefix !'' ''Break pane to new window'' ''Pane Management'',
     mk ''Prefix q'' ''Show pane numbers'' ''Pane Management'',
     mk ''Prefix ['' ''Enter copy mode'' ''Copy Mode'',
     mk ''v'' ''Start selection (vi)'' ''Copy Mode'',
     mk ''y'' ''Copy selection (vi)'' ''Copy Mode'',
     mk ''Prefix ]'' ''Paste buffer'' ''Copy Mode'',
     mk ''Prefix t'' ''Show clock'' ''Misc'',
     mk ''Prefix :'' ''Enter command prompt'' ''Misc'',
     mk ''Prefix ?'' ''List all shortcuts'' ''Misc'']"

text \<open>The loop of \<^verbatim>\<open>main\<close>, lines 226-228: \<^verbatim>\<open>for i := range shortcuts\<close>, from the
  index \<open>i\<close> on, storing the replaced key in place.\<close>

function replaceKeys :: "nat \<Rightarrow> Shortcut list \<Rightarrow> Shortcut list" where
  "replaceKeys i shortcuts =
     (if i < length shortcuts
      then replaceKeys (i + 1)
             (shortcuts[i := (shortcuts ! i)\<lparr>Key := Replace (Key (shortcuts ! i)) ''Prefix'' ''ctrl+b''\<rparr>])
      else shortcuts)"
  by pat_completeness auto
termination
  by (relation "measure (\<lambda>(i, shortcuts). length shortcuts - i)") auto



section \<open>The layout: \<^verbatim>\<open>displayShortcutsInColumns\<close>\<close>

text \<open>A run of the program ends with its output or with a runtime panic.\<close>

datatype error = MakesliceLenOutOfRange | IndexOutOfRange | IntegerDivideByZero

definition orderedCategories :: "string list" where
  "orderedCategories =
     [''Sessions'', ''Windows'', ''Pane Splitting & Nav'', ''Pane Management'', ''Misc'',
      ''Copy Mode'']"

definition columnWidth :: int where
  "columnWidth = 25"

definition columnSpacing :: int where
  "columnSpacing = 2"

definition fullColumnWidth :: int where
  "fullColumnWidth = columnWidth + columnSpacing"

text \<open>Lines 136-139. The terminal width is what \<^verbatim>\<open>getTerminalWidth\<close> returned: the
  second field of the output of \<^verbatim>\<open>stty size\<close> as \<^verbatim>\<open>strconv.Atoi\<close> read it (any
  integer, signed), or 80. It is a parameter of the model.\<close>

definition numDisplayColumns :: "int \<Rightarrow> int" where
  "numDisplayColumns terminalWidth =
     (let n = go_div terminalWidth fullColumnWidth in if n = 0 then 1 else n)"

text \<open>The map \<^verbatim>\<open>categorized\<close>, lines 125-128. Reading a key that is not in a Go map
  gives the nil slice.\<close>

definition lookup :: "(string \<rightharpoonup> Shortcut list) \<Rightarrow> string \<Rightarrow> Shortcut list" where
  "lookup m k = (case m k of None \<Rightarrow> [] | Some v \<Rightarrow> v)"

fun categorize :: "Shortcut list \<Rightarrow> (string \<rightharpoonup> Shortcut list) \<Rightarrow> (string \<rightharpoonup> Shortcut list)" where
  "categorize [] categorized = categorized"
| "categorize (s # rest) categorized =
     categorize rest (categorized(Category s \<mapsto> lookup categorized (Category s) @ [s]))"

record block =
  lines :: "string list"
  isHeader :: bool
  categoryId :: int

text \<open>The horizontal rule of a header is 25 copies of the string literal of line 157,
  which in the source file is the eight bytes below (three code points).\<close>

definition ruleString :: string where
  "ruleString = [CHR 0xC3, CHR 0xA2, CHR 0xE2, CHR 0x80, CHR 0x9D, CHR 0xE2, CHR 0x82, CHR 0xAC]"

text \<open>The block builder, lines 149-173: the loop over the shortcuts of one category, and
  the loop over the categories with its index \<open>i\<close>. Both carry \<^verbatim>\<open>allBlocks\<close> and
  \<^verbatim>\<open>totalLines\<close>.\<close>

definition shortcutBlock :: "Shortcut \<Rightarrow> string list" where
  "shortcutBlock shortcut =
     [formatCell ('' '' @ Key shortcut) columnWidth]
     @ map (\<lambda>line. formatCell (''  '' @ line) columnWidth)
         (wordWrap (Description shortcut) (columnWidth - 2))
     @ ['''']"

definition headerBlock :: "int \<Rightarrow> string \<Rightarrow> string list" where
  "headerBlock i catName =
     (if i > 0 then [''''] else [])
     @ [center catName columnWidth, Repeat ruleString (nat columnWidth), '''']"

fun shortcut_loop :: "Shortcut list \<Rightarrow> int \<Rightarrow> block list \<times> int \<Rightarrow> block list \<times> int" where
  "shortcut_loop [] i (allBlocks, totalLines) = (allBlocks, totalLines)"
| "shortcut_loop (shortcut # rest) i (allBlocks, totalLines) =
     shortcut_loop rest i
       (allBlocks @ [\<lparr>lines = shortcutBlock shortcut, isHeader = False, categoryId = i\<rparr>],
        totalLines + int (length (shortcutBlock shortcut)))"

fun category_loop ::
  "string list \<Rightarrow> int \<Rightarrow> (string \<rightharpoonup> Shortcut list) \<Rightarrow> block list \<times> int \<Rightarrow> block list \<times> int" where
  "category_loop [] i categorized (allBlocks, totalLines) = (allBlocks, totalLines)"
| "category_loop (catName # rest) i categorized (allBlocks, totalLines) =
     category_loop rest (i + 1) categorized
       (shortcut_loop (lookup categorized catName) i
          (allBlocks @ [\<lparr>lines = headerBlock i catName, isHeader = True, categoryId = i\<rparr>],
           totalLines + int (length (headerBlock i catName))))"

definition buildBlocks :: "Shortcut list \<Rightarrow> block list \<times> int" where
  "buildBlocks allShortcuts =
     category_loop orderedCategories 0 (categorize allShortcuts Map.empty) ([], 0)"

text \<open>\<^verbatim>\<open>make([][]string, numDisplayColumns)\<close>, line 179: a negative length is a runtime
  panic.\<close>

definition make_columns :: "int \<Rightarrow> error + string list list" where
  "make_columns n = (if n < 0 then Inl MakesliceLenOutOfRange else Inr (replicate (nat n) []))"

text \<open>The packing loop, lines 183-207, over the blocks still to place: \<open>blk\<close> is
  \<^verbatim>\<open>allBlocks[i]\<close> and the head of \<open>rest\<close>, when there is one, is \<^verbatim>\<open>allBlocks[i+1]\<close>.
  \<open>minSpaceNeeded\<close> is lines 187-191 and \<open>skipLeadingEmpty\<close> lines 200-202.
  \<^verbatim>\<open>break\<close> ends the loop with the columns as they are. An index outside
  \<^verbatim>\<open>columns\<close> is a runtime panic.\<close>

definition minSpaceNeeded :: "block \<Rightarrow> block list \<Rightarrow> int" where
  "minSpaceNeeded blk rest =
     int (length (lines blk))
     + (case rest of
          [] \<Rightarrow> 0
        | nxt # _ \<Rightarrow>
            if isHeader blk \<and> categoryId nxt = categoryId blk
            then int (length (lines nxt)) else 0)"

definition skipLeadingEmpty :: "string list \<Rightarrow> string list" where
  "skipLeadingEmpty blockLines =
     (if length blockLines > 0 \<and> TrimSpace (hd blockLines) = [] then tl blockLines
      else blockLines)"

fun pack_loop ::
  "block list \<Rightarrow> int \<Rightarrow> int \<Rightarrow> string list list \<Rightarrow> nat \<Rightarrow> error + string list list" where
  "pack_loop [] columnHeight numColumns columns currentCol = Inr columns"
| "pack_loop (blk # rest) columnHeight numColumns columns currentCol =
     (if currentCol \<ge> length columns then Inl IndexOutOfRange
      else if length (columns ! currentCol) > 0
              \<and> int (length (columns ! currentCol)) + minSpaceNeeded blk rest > columnHeight
      then
        (if int (currentCol + 1) \<ge> numColumns then Inr columns
         else if currentCol + 1 \<ge> length columns then Inl IndexOutOfRange
         else pack_loop rest columnHeight numColumns
                (columns[currentCol + 1 :=
                   columns ! (currentCol + 1) @ skipLeadingEmpty (lines blk)])
                (currentCol + 1))
      else pack_loop rest columnHeight numColumns
             (columns[currentCol := columns ! currentCol @ lines blk]) currentCol)"

text \<open>Lines 179-207: the columns allocated, the column height (a division, which
  panics on the divisor 0), and the packing loop run from column 0. The result is the
  columns and the column height.\<close>

definition distribute :: "block list \<Rightarrow> int \<Rightarrow> int \<Rightarrow> error + (string list list \<times> int)" where
  "distribute allBlocks totalLines numColumns =
     (case make_columns numColumns of
        Inl e \<Rightarrow> Inl e
      | Inr columns \<Rightarrow>
          if numColumns = 0 then Inl IntegerDivideByZero
          else
            (let columnHeight = go_div (totalLines + numColumns - 1) numColumns
             in case pack_loop allBlocks columnHeight numColumns columns 0 of
                  Inl e \<Rightarrow> Inl e
                | Inr packed \<Rightarrow> Inr (packed, columnHeight)))"

text \<open>The number of lines of a block sequence: what the block builder has added up in
  \<^verbatim>\<open>totalLines\<close> when it is done (lemma \<open>buildBlocks_totalLines\<close>).\<close>

definition totalLinesOf :: "block list \<Rightarrow> int" where
  "totalLinesOf blocks = (\<Sum>b\<leftarrow>blocks. int (length (lines b)))"

text \<open>The renderer, lines 210-220. The output is the text printed so far; \<open>render_cols\<close>
  is the inner loop from the column \<open>col\<close> on, \<open>render_rows\<close> the outer loop from the row
  \<open>row\<close> on.\<close>

function render_cols :: "string list list \<Rightarrow> nat \<Rightarrow> int \<Rightarrow> nat \<Rightarrow> string \<Rightarrow> error + string" where
  "render_cols columns row numColumns col out =
     (if int col < numColumns
      then (if col \<ge> length columns then Inl IndexOutOfRange
            else render_cols columns row numColumns (col + 1)
                   (out
                    @ formatCell (if row < length (columns ! col) then columns ! col ! row else '''')
                        columnWidth
                    @ Repeat '' '' (nat columnSpacing)))
      else Inr out)"
  by pat_completeness auto
termination
  by (relation "measure (\<lambda>(columns, row, numColumns, col, out). nat (numColumns - int col))") auto

function render_rows :: "string list list \<Rightarrow> int \<Rightarrow> int \<Rightarrow> nat \<Rightarrow> string \<Rightarrow> error + string" where
  "render_rows columns columnHeight numColumns row out =
     (if int row < columnHeight
      then (case render_cols columns row numColumns 0 out of
              Inl e \<Rightarrow> Inl e
            | Inr out1 \<Rightarrow> render_rows columns columnHeight numColumns (row + 1) (out1 @ [CHR 0x0A]))
      else Inr out)"
  by pat_completeness auto
termination
  by (relation "measure (\<lambda>(columns, columnHeight, numColumns, row, out). nat (columnHeight - int row))") auto

text \<open>\<^verbatim>\<open>displayShortcutsInColumns\<close>, lines 124-221, with the terminal width as a
  parameter: the text it prints, or the panic it ends with.\<close>

definition displayShortcutsInColumns :: "Shortcut list \<Rightarrow> int \<Rightarrow> error + string" where
  "displayShortcutsInColumns allShortcuts terminalWidth =
     (let numColumns = numDisplayColumns terminalWidth;
          (allBlocks, totalLines) = buildBlocks allShortcuts
      in if totalLines = 0 then Inr []
         else (case distribute allBlocks totalLines numColumns of
                 Inl e \<Rightarrow> Inl e
               | Inr (columns, columnHeight) \<Rightarrow>
                   render_rows columns columnHeight numColumns 0 []))"

text \<open>\<^verbatim>\<open>main\<close>, lines 223-232: the text printed, and the panic that ended the run if
  there was one.\<close>

definition main_prog :: "int \<Rightarrow> string \<times> error option" where
  "main_prog terminalWidth =
     (case displayShortcutsInColumns (replaceKeys 0 getStaticShortcuts) terminalWidth of
        Inl e \<Rightarrow> ([CHR 0x0A], Some e)
      | Inr out \<Rightarrow> ([CHR 0x0A] @ out @ [CHR 0x0A], None))"

section \<open>Word wrap\<close>

lemma wrap_loop_Cons:
  "wrap_loop (word # words) lineWidth ls currentLine =
     (if int (length currentLine) + int (length word) + 1 > lineWidth
      then wrap_loop words lineWidth (ls @ [currentLine]) word
      else if currentLine = [] then wrap_loop words lineWidth ls word
      else wrap_loop words lineWidth ls (currentLine @ '' '' @ word))"
  by simp

declare wrap_loop.simps(2) [simp del]

lemma wrap_loop_line_bound:
  assumes "set words \<subseteq> W"
    and "\<forall>l\<in>set ls. int (length l) \<le> lineWidth \<or> l \<in> W"
    and "int (length currentLine) \<le> lineWidth \<or> currentLine \<in> W"
  shows "\<forall>l\<in>set (wrap_loop words lineWidth ls currentLine).
           int (length l) \<le> lineWidth \<or> l \<in> W"
  using assms
proof (induction words arbitrary: ls currentLine)
  case Nil
  then show ?case by simp
next
  case (Cons word words)
  have w: "word \<in> W" and ws: "set words \<subseteq> W"
    using Cons.prems(1) by simp_all
  show ?case
  proof (cases "int (length currentLine) + int (length word) + 1 > lineWidth")
    case True
    have "\<forall>l\<in>set (ls @ [currentLine]). int (length l) \<le> lineWidth \<or> l \<in> W"
      using Cons.prems(2,3) by simp
    from Cons.IH [OF ws this, of word] w True show ?thesis
      by (simp add: wrap_loop_Cons)
  next
    case False
    then have fits: "int (length (currentLine @ '' '' @ word)) \<le> lineWidth"
      by simp
    show ?thesis
    proof (cases "currentLine = []")
      case True
      from Cons.IH [OF ws Cons.prems(2), of word] w True False show ?thesis
        by (simp add: wrap_loop_Cons)
    next
      case nonempty: False
      from Cons.IH [OF ws Cons.prems(2), of "currentLine @ '' '' @ word"] fits nonempty False
      show ?thesis
        by (simp add: wrap_loop_Cons)
    qed
  qed
qed

text \<open>
  C7. For every text and every positive line width, a line of \<open>wordWrap text lineWidth\<close>
  is at most \<open>lineWidth\<close> bytes long, unless it is a single word of the text that is
  itself longer than \<open>lineWidth\<close>.
\<close>

theorem wordWrap_line_length:
  assumes "0 < lineWidth" and "l \<in> set (wordWrap text lineWidth)"
  shows "int (length l) \<le> lineWidth
         \<or> (l \<in> set (Fields (TrimSpace text)) \<and> lineWidth < int (length l))"
proof -
  let ?ws = "Fields (TrimSpace text)"
  have "\<forall>l\<in>set (wrap_loop ?ws lineWidth [] []). int (length l) \<le> lineWidth \<or> l \<in> set ?ws"
    using assms(1) by (intro wrap_loop_line_bound) simp_all
  moreover have "l \<in> set (wrap_loop ?ws lineWidth [] [])"
    using assms(2) by (simp add: wordWrap_def Let_def split: if_splits)
  ultimately show ?thesis
    by fastforce
qed

theorem wordWrap_line_length_witness:
  "(0::int) < 5 \<and> ''abcdefgh'' \<in> set (wordWrap ''abcdefgh hi'' 5)
   \<and> ''abcdefgh'' \<in> set (Fields (TrimSpace ''abcdefgh hi''))
   \<and> 5 < int (length ''abcdefgh'')
   \<and> ''hi'' \<in> set (wordWrap ''abcdefgh hi'' 5) \<and> int (length ''hi'') \<le> 5"
  using wordWrap_line_length [of 5 "''abcdefgh''" "''abcdefgh hi''"]
  by (simp add: wordWrap_def Fields_def TrimSpace_def spaceLen_def spaceLenEnd_def
      isSpaceEnc_def wrap_loop_Cons)

text \<open>Where \<open>wordWrap\<close> and the greedy reference differ: the loop tests
  \<^verbatim>\<open>len(currentLine)+len(word)+1 > lineWidth\<close> for the first word too, when
  \<^verbatim>\<open>currentLine\<close> is still empty, and then appends that empty line.\<close>

lemma fieldsFrom_nonempty: "[] \<notin> set (fieldsFrom w s)"
  by (induction w s rule: fieldsFrom.induct) auto

lemma Fields_nonempty: "[] \<notin> set (Fields s)"
  by (simp add: Fields_def fieldsFrom_nonempty)

lemma wrap_loop_greedy_line:
  assumes "currentLine \<noteq> []" and "[] \<notin> set words"
  shows "wrap_loop words lineWidth ls currentLine = ls @ greedy_line lineWidth currentLine words"
  using assms
proof (induction words arbitrary: ls currentLine)
  case Nil
  then show ?case by simp
next
  case (Cons word words)
  then have "word \<noteq> []" and "[] \<notin> set words"
    by auto
  with Cons.IH Cons.prems(1) show ?case
    by (simp add: wrap_loop_Cons)
qed

lemma wordWrap_greedy_shape:
  "wordWrap text lineWidth =
     (case Fields (TrimSpace text) of
        [] \<Rightarrow> []
      | w # ws \<Rightarrow> (if lineWidth < int (length w) + 1 then [[]] else [])
                  @ greedyWrap (w # ws) lineWidth)"
proof (cases "Fields (TrimSpace text)")
  case Nil
  then show ?thesis by (simp add: wordWrap_def)
next
  case (Cons w ws)
  have "[] \<notin> set (w # ws)"
    using Fields_nonempty [of "TrimSpace text"] Cons by simp
  then have "w \<noteq> []" and "[] \<notin> set ws"
    by auto
  then have "wrap_loop ws lineWidth ls w = ls @ greedy_line lineWidth w ws" for ls
    by (rule wrap_loop_greedy_line)
  then show ?thesis
    using Cons by (simp add: wordWrap_def wrap_loop_Cons)
qed

text \<open>
  C4. The claim: \<open>wordWrap\<close> is the greedy reference, and no line of its result is
  empty. At the text \<open>hello\<close> and the line width 5 the word fits its line, the reference
  gives the one line \<open>hello\<close>, and \<open>wordWrap\<close> gives an empty line before it.
\<close>

theorem wordWrap_leading_empty_line:
  "wordWrap ''hello'' 5 = ['''', ''hello'']
   \<and> greedyWrap (Fields (TrimSpace ''hello'')) 5 = [''hello'']"
  by (simp add: wordWrap_def Fields_def TrimSpace_def spaceLen_def spaceLenEnd_def
      isSpaceEnc_def wrap_loop_Cons)

section \<open>The column packer\<close>

lemma pack_loop_Cons:
  assumes "currentCol < length columns" and "int (length columns) = N"
  shows "pack_loop (blk # rest) H N columns currentCol =
     (if columns ! currentCol \<noteq> []
          \<and> int (length (columns ! currentCol)) + minSpaceNeeded blk rest > H
      then (if currentCol + 1 = length columns then Inr columns
            else pack_loop rest H N
                   (columns[currentCol + 1 :=
                      columns ! (currentCol + 1) @ skipLeadingEmpty (lines blk)])
                   (currentCol + 1))
      else pack_loop rest H N (columns[currentCol := columns ! currentCol @ lines blk]) currentCol)"
  using assms by auto

declare pack_loop.simps(2) [simp del]


lemma length_skipLeadingEmpty: "length (skipLeadingEmpty bl) \<le> length bl"
  by (simp add: skipLeadingEmpty_def)

lemma minSpaceNeeded_ge: "int (length (lines blk)) \<le> minSpaceNeeded blk rest"
  by (simp add: minSpaceNeeded_def split: list.split)

lemma totalLinesOf_nonneg: "0 \<le> totalLinesOf blocks"
  by (induction blocks) (simp_all add: totalLinesOf_def)

lemma totalLinesOf_Cons: "totalLinesOf (b # blocks) = int (length (lines b)) + totalLinesOf blocks"
  by (simp add: totalLinesOf_def)

lemma minSpaceNeeded_le_total: "minSpaceNeeded blk rest \<le> totalLinesOf (blk # rest)"
proof (cases rest)
  case Nil
  then show ?thesis by (simp add: minSpaceNeeded_def totalLinesOf_def)
next
  case (Cons nxt more)
  then show ?thesis
    using totalLinesOf_nonneg [of more]
    by (simp add: minSpaceNeeded_def totalLinesOf_Cons)
qed


lemma make_columns_ok: "1 \<le> N \<Longrightarrow> make_columns N = Inr (replicate (nat N) [])"
  by (simp add: make_columns_def)




lemma pack_loop_height:
  assumes "currentCol < length columns" and "int (length columns) = N"
    and "\<forall>b\<in>set blocks. int (length (lines b)) \<le> H"
    and "\<forall>c<length columns. int (length (columns ! c)) \<le> H"
    and "\<forall>c. currentCol < c \<and> c < length columns \<longrightarrow> columns ! c = []"
  shows "\<exists>packed. pack_loop blocks H N columns currentCol = Inr packed
           \<and> length packed = length columns
           \<and> (\<forall>c<length columns. int (length (packed ! c)) \<le> H)"
  using assms
proof (induction blocks arbitrary: columns currentCol)
  case Nil
  then show ?case by simp
next
  case (Cons blk rest)
  have blk: "int (length (lines blk)) \<le> H" and rest: "\<forall>b\<in>set rest. int (length (lines b)) \<le> H"
    using Cons.prems(3) by simp_all
  note step = pack_loop_Cons [OF Cons.prems(1,2), of blk rest H]
  let ?adv = "columns ! currentCol \<noteq> []
              \<and> int (length (columns ! currentCol)) + minSpaceNeeded blk rest > H"
  show ?case
  proof (cases ?adv)
    case False
    let ?cols = "columns[currentCol := columns ! currentCol @ lines blk]"
    have fit: "int (length (columns ! currentCol @ lines blk)) \<le> H"
      using False blk minSpaceNeeded_ge [of blk rest] by auto
    have "\<forall>c<length ?cols. int (length (?cols ! c)) \<le> H"
      using Cons.prems(1,4) fit by (auto simp: nth_list_update)
    moreover have "\<forall>c. currentCol < c \<and> c < length ?cols \<longrightarrow> ?cols ! c = []"
      using Cons.prems(5) by simp
    moreover have "currentCol < length ?cols" "int (length ?cols) = N"
      using Cons.prems(1,2) by simp_all
    ultimately have "\<exists>packed. pack_loop rest H N ?cols currentCol = Inr packed
           \<and> length packed = length ?cols
           \<and> (\<forall>c<length ?cols. int (length (packed ! c)) \<le> H)"
      using rest by (intro Cons.IH) blast+
    moreover have "pack_loop (blk # rest) H N columns currentCol = pack_loop rest H N ?cols currentCol"
      by (subst step) (simp only: False if_False)
    ultimately show ?thesis by simp
  next
    case True
    show ?thesis
    proof (cases "currentCol + 1 = length columns")
      case last: True
      have "pack_loop (blk # rest) H N columns currentCol = Inr columns"
        by (subst step) (use True last in simp)
      then show ?thesis using Cons.prems(4) by simp
    next
      case more: False
      let ?c = "currentCol + 1"
      let ?cols = "columns[?c := columns ! ?c @ skipLeadingEmpty (lines blk)]"
      have c: "?c < length columns" using more Cons.prems(1) by simp
      then have empty: "columns ! ?c = []" using Cons.prems(5) by simp
      have fit: "int (length (columns ! ?c @ skipLeadingEmpty (lines blk))) \<le> H"
        using empty blk length_skipLeadingEmpty [of "lines blk"] by simp
      have "\<forall>c<length ?cols. int (length (?cols ! c)) \<le> H"
        using Cons.prems(4) c fit by (auto simp: nth_list_update)
      moreover have "\<forall>c'. ?c < c' \<and> c' < length ?cols \<longrightarrow> ?cols ! c' = []"
        using Cons.prems(5) by simp
      moreover have "?c < length ?cols" "int (length ?cols) = N"
        using c Cons.prems(2) by simp_all
      ultimately have "\<exists>packed. pack_loop rest H N ?cols ?c = Inr packed
           \<and> length packed = length ?cols
           \<and> (\<forall>c<length ?cols. int (length (packed ! c)) \<le> H)"
        using rest by (intro Cons.IH) blast+
      moreover have "pack_loop (blk # rest) H N columns currentCol = pack_loop rest H N ?cols ?c"
        by (subst step) (use True more in simp)
      ultimately show ?thesis by simp
    qed
  qed
qed

text \<open>
  C9. For every block sequence and every \<open>N \<ge> 1\<close>: when no block has more lines than the
  column height \<open>(totalLines + N - 1) / N\<close>, the packer ends without a panic and no column
  has more lines than the column height.
\<close>

theorem column_height_bound:
  assumes "1 \<le> N"
    and "\<forall>b\<in>set blocks. int (length (lines b)) \<le> go_div (totalLinesOf blocks + N - 1) N"
  shows "\<exists>packed. distribute blocks (totalLinesOf blocks) N
                    = Inr (packed, go_div (totalLinesOf blocks + N - 1) N)
           \<and> length packed = nat N
           \<and> (\<forall>col\<in>set packed. int (length col) \<le> go_div (totalLinesOf blocks + N - 1) N)"
proof -
  let ?H = "go_div (totalLinesOf blocks + N - 1) N"
  let ?cols = "replicate (nat N) ([] :: string list)"
  have "0 \<le> ?H"
    using assms(1) totalLinesOf_nonneg [of blocks]
    by (simp add: go_div_def pos_imp_zdiv_nonneg_iff)
  then have "\<forall>c<length ?cols. int (length (?cols ! c)) \<le> ?H"
    by simp
  moreover have "\<forall>c. 0 < c \<and> c < length ?cols \<longrightarrow> ?cols ! c = []"
    by simp
  moreover have "0 < length ?cols" "int (length ?cols) = N"
    using assms(1) by simp_all
  ultimately obtain packed where
    r: "pack_loop blocks ?H N ?cols 0 = Inr packed"
    and len: "length packed = length ?cols"
    and h: "\<forall>c<length ?cols. int (length (packed ! c)) \<le> ?H"
    using pack_loop_height [of 0 ?cols N blocks ?H] assms(2) by blast
  have "distribute blocks (totalLinesOf blocks) N = Inr (packed, ?H)"
    using r assms(1) by (simp add: distribute_def make_columns_ok)
  moreover have "\<forall>col\<in>set packed. int (length col) \<le> ?H"
    using h len by (auto simp: in_set_conv_nth)
  ultimately show ?thesis using len by simp
qed

theorem column_height_bound_witness:
  "(1::int) \<le> 2
   \<and> list_all (\<lambda>b. int (length (lines b)) \<le> 2)
         [\<lparr>lines = [''a''], isHeader = True, categoryId = 0\<rparr>,
          \<lparr>lines = [''b''], isHeader = False, categoryId = 0\<rparr>,
          \<lparr>lines = [''c''], isHeader = False, categoryId = 0\<rparr>]
   \<and> go_div (totalLinesOf [\<lparr>lines = [''a''], isHeader = True, categoryId = 0\<rparr>,
                 \<lparr>lines = [''b''], isHeader = False, categoryId = 0\<rparr>,
                 \<lparr>lines = [''c''], isHeader = False, categoryId = 0\<rparr>] + 2 - 1) 2 = 2
   \<and> (\<exists>packed. distribute [\<lparr>lines = [''a''], isHeader = True, categoryId = 0\<rparr>,
                 \<lparr>lines = [''b''], isHeader = False, categoryId = 0\<rparr>,
                 \<lparr>lines = [''c''], isHeader = False, categoryId = 0\<rparr>] 3 2 = Inr (packed, 2)
         \<and> length packed = 2
         \<and> int (length (packed ! 0)) \<le> 2 \<and> int (length (packed ! 1)) \<le> 2)"
proof -
  let ?B = "[\<lparr>lines = [''a''], isHeader = True, categoryId = 0\<rparr>,
                 \<lparr>lines = [''b''], isHeader = False, categoryId = 0\<rparr>,
                 \<lparr>lines = [''c''], isHeader = False, categoryId = 0\<rparr>]"
  have n: "(1::int) \<le> 2" by simp
  have t: "totalLinesOf ?B = 3" by (simp add: totalLinesOf_def)
  have h: "go_div (totalLinesOf ?B + 2 - 1) 2 = 2" by (simp add: t go_div_def)
  have b: "\<forall>b\<in>set ?B. int (length (lines b)) \<le> go_div (totalLinesOf ?B + 2 - 1) 2"
    unfolding h by simp
  from column_height_bound [OF n b] obtain packed where
    p: "distribute ?B (totalLinesOf ?B) 2 = Inr (packed, go_div (totalLinesOf ?B + 2 - 1) 2)"
    "length packed = nat 2"
    "\<forall>col\<in>set packed. int (length col) \<le> go_div (totalLinesOf ?B + 2 - 1) 2"
    by blast
  then have c: "distribute ?B 3 2 = Inr (packed, 2) \<and> length packed = 2
         \<and> int (length (packed ! 0)) \<le> 2 \<and> int (length (packed ! 1)) \<le> 2"
    unfolding h unfolding t by (simp add: all_set_conv_all_nth)
  have ex: "\<exists>packed. distribute ?B 3 2 = Inr (packed, 2) \<and> length packed = 2
         \<and> int (length (packed ! 0)) \<le> 2 \<and> int (length (packed ! 1)) \<le> 2"
    by (rule exI [of _ packed]) (rule c)
  have b2: "list_all (\<lambda>b. int (length (lines b)) \<le> 2) ?B" by simp
  show ?thesis
    by (intro conjI) (rule n, rule b2, rule h, rule ex)
qed

lemma go_div_one: "go_div a 1 = a"
  by (simp add: go_div_def)

lemma pack_loop_single:
  assumes "int (length col) + totalLinesOf blocks \<le> H"
  shows "pack_loop blocks H 1 [col] 0 = Inr [col @ concat (map lines blocks)]"
  using assms
proof (induction blocks arbitrary: col)
  case Nil
  then show ?case by simp
next
  case (Cons blk rest)
  have "int (length col) + minSpaceNeeded blk rest \<le> H"
    using Cons.prems minSpaceNeeded_le_total [of blk rest] by simp
  then have "pack_loop (blk # rest) H 1 [col] 0 = pack_loop rest H 1 [col @ lines blk] 0"
    by (subst pack_loop_Cons) simp_all
  moreover have "int (length (col @ lines blk)) + totalLinesOf rest \<le> H"
    using Cons.prems by (simp add: totalLinesOf_Cons)
  ultimately show ?case
    using Cons.IH [of "col @ lines blk"] by simp
qed

lemma totalLinesOf_snoc:
  "totalLinesOf (bs @ [b]) = totalLinesOf bs + int (length (lines b))"
  by (simp add: totalLinesOf_def)

lemma shortcut_loop_total:
  assumes "t = totalLinesOf bs"
  shows "snd (shortcut_loop ss i (bs, t)) = totalLinesOf (fst (shortcut_loop ss i (bs, t)))"
  using assms
proof (induction ss arbitrary: bs t)
  case Nil
  then show ?case by simp
next
  case (Cons s ss)
  let ?bs = "bs @ [\<lparr>lines = shortcutBlock s, isHeader = False, categoryId = i\<rparr>]"
  have "t + int (length (shortcutBlock s)) = totalLinesOf ?bs"
    using Cons.prems by (simp add: totalLinesOf_snoc)
  from Cons.IH [OF this] show ?case by simp
qed

lemma category_loop_total:
  assumes "t = totalLinesOf bs"
  shows "snd (category_loop cs i m (bs, t)) = totalLinesOf (fst (category_loop cs i m (bs, t)))"
  using assms
proof (induction cs arbitrary: i bs t)
  case Nil
  then show ?case by simp
next
  case (Cons c cs)
  let ?bs = "bs @ [\<lparr>lines = headerBlock i c, isHeader = True, categoryId = i\<rparr>]"
  let ?t = "t + int (length (headerBlock i c))"
  obtain bs' t' where r: "shortcut_loop (lookup m c) i (?bs, ?t) = (bs', t')"
    by (cases "shortcut_loop (lookup m c) i (?bs, ?t)")
  have "?t = totalLinesOf ?bs"
    using Cons.prems by (simp add: totalLinesOf_snoc)
  from shortcut_loop_total [OF this, of "lookup m c" i] r have "t' = totalLinesOf bs'"
    by simp
  from Cons.IH [OF this, of "i + 1"] r show ?case
    by simp
qed

lemma buildBlocks_totalLines:
  "snd (buildBlocks allShortcuts) = totalLinesOf (fst (buildBlocks allShortcuts))"
  unfolding buildBlocks_def by (rule category_loop_total) (simp add: totalLinesOf_def)

text \<open>
  C3. With one display column the column height is the total number of lines, and the
  packer puts every block, whole and in the order of the sequence, into the one column:
  the column is the concatenation of the lines of all blocks. This holds of every block
  sequence with its number of lines, and so of the blocks and the total the block
  builder hands over for any dataset.
\<close>

theorem single_column_keeps_all:
  "distribute blocks (totalLinesOf blocks) 1
     = Inr ([concat (map lines blocks)], totalLinesOf blocks)
   \<and> distribute (fst (buildBlocks allShortcuts)) (snd (buildBlocks allShortcuts)) 1
     = Inr ([concat (map lines (fst (buildBlocks allShortcuts)))], snd (buildBlocks allShortcuts))"
proof -
  have "distribute bs (totalLinesOf bs) 1 = Inr ([concat (map lines bs)], totalLinesOf bs)" for bs
    using pack_loop_single [of "[]" bs "totalLinesOf bs"]
    by (simp add: distribute_def make_columns_def go_div_one)
  then show ?thesis
    by (simp add: buildBlocks_totalLines)
qed

lemma minSpaceNeeded_header:
  "isHeader h \<Longrightarrow> categoryId e = categoryId h \<Longrightarrow>
   minSpaceNeeded h (e # rest) = int (length (lines h)) + int (length (lines e))"
  by (simp add: minSpaceNeeded_def)

lemma minSpaceNeeded_entry: "\<not> isHeader e \<Longrightarrow> minSpaceNeeded e rest = int (length (lines e))"
  by (simp add: minSpaceNeeded_def split: list.split)

text \<open>The invariant of the packing loop holds at every iteration of a run that starts in a
  state with the invariant, as the run from the fresh columns and column 0 does: after any
  prefix \<open>pre\<close> of the blocks the loop has ended by \<^verbatim>\<open>break\<close>, or it goes on with the
  rest from a state with the invariant.\<close>

lemma pack_loop_prefix:
  assumes "currentCol < length columns" and "int (length columns) = N"
    and "\<forall>c. currentCol < c \<and> c < length columns \<longrightarrow> columns ! c = []"
  shows "\<exists>columns' currentCol'.
           currentCol' < length columns' \<and> int (length columns') = N
           \<and> (\<forall>c. currentCol' < c \<and> c < length columns' \<longrightarrow> columns' ! c = [])
           \<and> (pack_loop (pre @ suf) H N columns currentCol = Inr columns'
              \<or> pack_loop (pre @ suf) H N columns currentCol
                  = pack_loop suf H N columns' currentCol')"
  using assms
proof (induction pre arbitrary: columns currentCol)
  case Nil
  then show ?case by auto
next
  case (Cons blk pre)
  note step = pack_loop_Cons [OF Cons.prems(1,2), of blk "pre @ suf" H]
  let ?adv = "columns ! currentCol \<noteq> []
              \<and> int (length (columns ! currentCol)) + minSpaceNeeded blk (pre @ suf) > H"
  show ?case
  proof (cases ?adv)
    case False
    let ?cols = "columns[currentCol := columns ! currentCol @ lines blk]"
    have eq: "pack_loop ((blk # pre) @ suf) H N columns currentCol
                = pack_loop (pre @ suf) H N ?cols currentCol"
      unfolding append_Cons by (subst step) (simp only: False if_False)
    have "currentCol < length ?cols" "int (length ?cols) = N"
      "\<forall>c. currentCol < c \<and> c < length ?cols \<longrightarrow> ?cols ! c = []"
      using Cons.prems by simp_all
    from Cons.IH [OF this] show ?thesis
      unfolding eq .
  next
    case True
    show ?thesis
    proof (cases "currentCol + 1 = length columns")
      case last: True
      have "pack_loop ((blk # pre) @ suf) H N columns currentCol = Inr columns"
        unfolding append_Cons by (subst step) (use True last in simp)
      with Cons.prems show ?thesis by blast
    next
      case more: False
      let ?c = "currentCol + 1"
      let ?cols = "columns[?c := columns ! ?c @ skipLeadingEmpty (lines blk)]"
      have eq: "pack_loop ((blk # pre) @ suf) H N columns currentCol
                  = pack_loop (pre @ suf) H N ?cols ?c"
        unfolding append_Cons by (subst step) (use True more in simp)
      have "?c < length ?cols" "int (length ?cols) = N"
        "\<forall>c. ?c < c \<and> c < length ?cols \<longrightarrow> ?cols ! c = []"
        using Cons.prems more by simp_all
      from Cons.IH [OF this] show ?thesis
        unfolding eq .
    qed
  qed
qed

text \<open>
  C2, as claimed, fails. A header of 3 lines and its first entry of 5 lines, packed into
  two columns: the column height is 4, the header goes into the empty first column
  (an empty column takes any block), and the entry, which does not fit under it, goes
  into the second column. The header stands alone in its column although
  \<open>minSpaceNeeded\<close> was the header's lines plus the entry's.
\<close>

theorem header_stranded_counterexample:
  "isHeader \<lparr>lines = [''Sessions'', ''---'', ''''], isHeader = True, categoryId = 0\<rparr>
   \<and> categoryId \<lparr>lines = ['' d'', ''  Detach'', ''  from'', ''  session'', ''''],
                   isHeader = False, categoryId = 0\<rparr>
       = categoryId \<lparr>lines = [''Sessions'', ''---'', ''''], isHeader = True, categoryId = 0\<rparr>
   \<and> minSpaceNeeded \<lparr>lines = [''Sessions'', ''---'', ''''], isHeader = True, categoryId = 0\<rparr>
        [\<lparr>lines = ['' d'', ''  Detach'', ''  from'', ''  session'', ''''],
          isHeader = False, categoryId = 0\<rparr>] = 3 + 5
   \<and> distribute
        [\<lparr>lines = [''Sessions'', ''---'', ''''], isHeader = True, categoryId = 0\<rparr>,
         \<lparr>lines = ['' d'', ''  Detach'', ''  from'', ''  session'', ''''],
          isHeader = False, categoryId = 0\<rparr>] 8 2
      = Inr ([[''Sessions'', ''---'', ''''],
              ['' d'', ''  Detach'', ''  from'', ''  session'', '''']], 4)"
  by (simp add: distribute_def make_columns_def go_div_def pack_loop.simps minSpaceNeeded_def
      skipLeadingEmpty_def TrimSpace_def spaceLen_def spaceLenEnd_def isSpaceEnc_def
      numeral_2_eq_2)

text \<open>
  C2, amended. At a header block followed by a block of the same category identifier,
  \<open>minSpaceNeeded\<close> is the line count of the header plus that of the follower, and the
  loop advances to the next column exactly when the current column has content and
  its length plus \<open>minSpaceNeeded\<close> exceeds the column height. When the follower is an
  entry block and the two together have at most \<open>columnHeight\<close> lines, the next two
  iterations append header and entry to the same column, one after the other (the header
  without its leading blank line at the top of a new column), or drop them both when no
  column is left. The hypotheses on \<open>columns\<close> and \<open>currentCol\<close> are the invariant of the
  loop: the current column exists and every column after it is still empty (lemma
  \<open>pack_loop_prefix\<close>).
\<close>

theorem header_kept_with_first_entry:
  assumes "currentCol < length columns" and "int (length columns) = N"
    and "\<forall>c. currentCol < c \<and> c < length columns \<longrightarrow> columns ! c = []"
    and "isHeader h" and "\<not> isHeader e" and "categoryId e = categoryId h"
    and "int (length (lines h)) + int (length (lines e)) \<le> H"
  shows "minSpaceNeeded h (e # rest) = int (length (lines h)) + int (length (lines e))
         \<and> pack_loop (h # e # rest) H N columns currentCol =
           (if columns ! currentCol \<noteq> []
               \<and> int (length (columns ! currentCol))
                  + (int (length (lines h)) + int (length (lines e))) > H
            then (if currentCol + 1 = length columns then Inr columns
                  else pack_loop rest H N
                         (columns[currentCol + 1 := skipLeadingEmpty (lines h) @ lines e])
                         (currentCol + 1))
            else pack_loop rest H N
                   (columns[currentCol := columns ! currentCol @ lines h @ lines e])
                   currentCol)"
proof -
  let ?need = "int (length (lines h)) + int (length (lines e))"
  have need: "minSpaceNeeded h (e # rest) = ?need"
    using assms(4,6) by (rule minSpaceNeeded_header)
  have entry: "minSpaceNeeded e rest = int (length (lines e))"
    using assms(5) by (rule minSpaceNeeded_entry)
  note first = pack_loop_Cons [OF assms(1,2), of h "e # rest" H, unfolded need]
  let ?adv = "columns ! currentCol \<noteq> [] \<and> int (length (columns ! currentCol)) + ?need > H"
  have "pack_loop (h # e # rest) H N columns currentCol =
           (if ?adv
            then (if currentCol + 1 = length columns then Inr columns
                  else pack_loop rest H N
                         (columns[currentCol + 1 := skipLeadingEmpty (lines h) @ lines e])
                         (currentCol + 1))
            else pack_loop rest H N
                   (columns[currentCol := columns ! currentCol @ lines h @ lines e])
                   currentCol)"
  proof (cases ?adv)
    case False
    let ?cols = "columns[currentCol := columns ! currentCol @ lines h]"
    have c: "currentCol < length ?cols" "int (length ?cols) = N"
      using assms(1,2) by simp_all
    have fits: "int (length (columns ! currentCol @ lines h)) + int (length (lines e)) \<le> H"
      using False assms(7) by auto
    have "pack_loop (h # e # rest) H N columns currentCol = pack_loop (e # rest) H N ?cols currentCol"
      by (subst first) (simp only: False if_False)
    also have "\<dots> = pack_loop rest H N (?cols[currentCol := ?cols ! currentCol @ lines e]) currentCol"
      using fits assms(1) by (subst pack_loop_Cons [OF c]) (simp add: entry)
    also have "?cols[currentCol := ?cols ! currentCol @ lines e]
                 = columns[currentCol := columns ! currentCol @ lines h @ lines e]"
      using assms(1) by simp
    finally show ?thesis
      by (simp only: False if_False)
  next
    case True
    show ?thesis
    proof (cases "currentCol + 1 = length columns")
      case last: True
      have "pack_loop (h # e # rest) H N columns currentCol = Inr columns"
        by (subst first) (use True last in simp)
      then show ?thesis
        using True last by simp
    next
      case more: False
      let ?c = "currentCol + 1"
      let ?cols = "columns[?c := columns ! ?c @ skipLeadingEmpty (lines h)]"
      have c: "?c < length columns" using more assms(1) by simp
      then have empty: "columns ! ?c = []" using assms(3) by simp
      have c': "?c < length ?cols" "int (length ?cols) = N"
        using c assms(2) by simp_all
      have fits: "int (length (?cols ! ?c)) + int (length (lines e)) \<le> H"
        using empty c assms(7) length_skipLeadingEmpty [of "lines h"] by simp
      have "pack_loop (h # e # rest) H N columns currentCol = pack_loop (e # rest) H N ?cols ?c"
        by (subst first) (use True more in simp)
      also have "\<dots> = pack_loop rest H N (?cols[?c := ?cols ! ?c @ lines e]) ?c"
        using fits by (subst pack_loop_Cons [OF c']) (simp add: entry)
      also have "?cols[?c := ?cols ! ?c @ lines e]
                   = columns[?c := skipLeadingEmpty (lines h) @ lines e]"
        using c empty by simp
      finally show ?thesis
        using True more by simp
    qed
  qed
  with need show ?thesis by simp
qed

theorem header_kept_with_first_entry_witness:
  "(0::nat) < length [[''a'', ''b'', ''c'', ''d''], []]
   \<and> int (length [[''a'', ''b'', ''c'', ''d''], ([] :: string list)]) = 2
   \<and> isHeader \<lparr>lines = ['''', ''Windows'', ''---'', ''''], isHeader = True, categoryId = 1\<rparr>
   \<and> \<not> isHeader \<lparr>lines = ['' c'', ''''], isHeader = False, categoryId = 1\<rparr>
   \<and> int (length (lines \<lparr>lines = ['''', ''Windows'', ''---'', ''''], isHeader = True,
                            categoryId = 1\<rparr>))
       + int (length (lines \<lparr>lines = ['' c'', ''''], isHeader = False, categoryId = 1\<rparr>)) \<le> 6
   \<and> pack_loop
        [\<lparr>lines = ['''', ''Windows'', ''---'', ''''], isHeader = True, categoryId = 1\<rparr>,
         \<lparr>lines = ['' c'', ''''], isHeader = False, categoryId = 1\<rparr>]
        6 2 [[''a'', ''b'', ''c'', ''d''], []] 0
      = Inr [[''a'', ''b'', ''c'', ''d''], [''Windows'', ''---'', '''', '' c'', '''']]"
proof -
  let ?h = "\<lparr>lines = ['''', ''Windows'', ''---'', ''''], isHeader = True, categoryId = 1\<rparr>"
  let ?e = "\<lparr>lines = ['' c'', ''''], isHeader = False, categoryId = 1\<rparr>"
  let ?cols = "[[''a'', ''b'', ''c'', ''d''], ([] :: string list)]"
  have a1: "(0::nat) < length ?cols" by simp
  have a2: "int (length ?cols) = 2" by simp
  have a3: "\<forall>c. 0 < c \<and> c < length ?cols \<longrightarrow> ?cols ! c = []"
    by (auto simp: less_Suc_eq numeral_2_eq_2)
  have a4: "isHeader ?h" by simp
  have a5: "\<not> isHeader ?e" by simp
  have a6: "categoryId ?e = categoryId ?h" by simp
  have a7: "int (length (lines ?h)) + int (length (lines ?e)) \<le> 6" by simp
  have skip: "skipLeadingEmpty ['''', ''Windows'', ''---'', ''''] = [''Windows'', ''---'', '''']"
    by (simp add: skipLeadingEmpty_def TrimSpace_def spaceLen_def spaceLenEnd_def isSpaceEnc_def)
  from header_kept_with_first_entry [OF a1 a2 a3 a4 a5 a6 a7, of "[]"]
  have "pack_loop [?h, ?e] 6 2 ?cols 0
          = Inr [[''a'', ''b'', ''c'', ''d''], [''Windows'', ''---'', '''', '' c'', '''']]"
    by (simp add: skip)
  then show ?thesis
    by (intro conjI) (rule a1, rule a2, rule a4, rule a5, rule a7, assumption)
qed

section \<open>The renderer\<close>

declare render_cols.simps [simp del] render_rows.simps [simp del]

lemma render_cols_closed:
  assumes "col \<le> length columns" and "int (length columns) = N"
  shows "render_cols columns row N col out =
           Inr (out @ concat (map (\<lambda>c. formatCell
                                       (if row < length (columns ! c) then columns ! c ! row else [])
                                       25 @ ''  '')
                               [col..<length columns]))"
  using assms(1)
proof (induction "length columns - col" arbitrary: col out)
  case 0
  then have "col = length columns" by simp
  then show ?case
    using assms(2) by (subst render_cols.simps) simp
next
  case (Suc n)
  then have lt: "col < length columns" and n: "n = length columns - (col + 1)"
    and le: "col + 1 \<le> length columns"
    by simp_all
  have cell: "Repeat '' '' (nat columnSpacing) = ''  ''"
    by (simp add: Repeat_def columnSpacing_def numeral_2_eq_2)
  have "render_cols columns row N col out =
          render_cols columns row N (col + 1)
            (out @ formatCell (if row < length (columns ! col) then columns ! col ! row else [])
                     25 @ ''  '')"
    using lt assms(2) by (subst render_cols.simps) (simp add: cell columnWidth_def)
  also note Suc.hyps(1) [OF n le]
  finally show ?case
    using lt by (simp add: upt_conv_Cons)
qed

lemma render_rows_closed:
  assumes "int (length columns) = N" and "int row \<le> H \<or> H < 0"
  shows "render_rows columns H N row out =
           Inr (out @ concat (map (\<lambda>r. concat (map (\<lambda>c. formatCell
                                       (if r < length (columns ! c) then columns ! c ! r else [])
                                       25 @ ''  '')
                               [0..<length columns]) @ [CHR 0x0A])
                       [row..<nat H]))"
  using assms(2)
proof (induction "nat H - row" arbitrary: row out)
  case 0
  then have "\<not> int row < H" by auto
  moreover from 0 have "[row..<nat H] = []" by simp
  ultimately show ?case
    by (subst render_rows.simps) simp
next
  case (Suc n)
  then have lt: "int row < H" and n: "n = nat H - (row + 1)" and le: "int (row + 1) \<le> H \<or> H < 0"
    by auto
  from lt have lt': "row < nat H" by simp
  have "render_rows columns H N row out =
          render_rows columns H N (row + 1)
            (out @ concat (map (\<lambda>c. formatCell
                                 (if row < length (columns ! c) then columns ! c ! row else [])
                                 25 @ ''  '')
                            [0..<length columns]) @ [CHR 0x0A])"
    using lt by (subst render_rows.simps) (simp add: render_cols_closed [OF _ assms(1)])
  also note Suc.hyps(1) [OF n le]
  finally show ?case
    using lt' by (simp add: upt_conv_Cons)
qed

text \<open>
  C8. For columns as the packer leaves them (as many as \<open>N\<close>), the renderer ends
  without a panic and prints exactly \<open>columnHeight\<close> rows: row \<open>row\<close> is, for every column from
  0 to \<open>N - 1\<close> in order, \<open>formatCell\<close> of the column's line at \<open>row\<close> (of the empty string
  when the column is shorter) at width 25, followed by two spaces; the row ends with a
  newline. Nothing else is printed, and the lines of a column at an index of
  \<open>columnHeight\<close> or more do not reach the output: cutting every column to its first
  \<open>columnHeight\<close> lines prints the same text.
\<close>

theorem render_output:
  assumes "int (length columns) = N"
  shows "render_rows columns H N 0 [] =
           Inr (concat (map (\<lambda>row. concat (map (\<lambda>col. formatCell
                                        (if row < length (columns ! col)
                                         then columns ! col ! row else '''')
                                        25 @ ''  '')
                                [0..<length columns]) @ [CHR 0x0A])
                   [0..<nat H]))
         \<and> render_rows (map (take (nat H)) columns) H N 0 [] = render_rows columns H N 0 []"
proof -
  have z: "int 0 \<le> H \<or> H < 0" by auto
  have full: "render_rows columns H N 0 [] =
           Inr (concat (map (\<lambda>row. concat (map (\<lambda>col. formatCell
                                        (if row < length (columns ! col)
                                         then columns ! col ! row else '''')
                                        25 @ ''  '')
                                [0..<length columns]) @ [CHR 0x0A])
                   [0..<nat H]))"
    using render_rows_closed [OF assms z, of "[]"] by simp
  have len: "int (length (map (take (nat H)) columns)) = N"
    using assms by simp
  have "render_rows (map (take (nat H)) columns) H N 0 [] =
           Inr (concat (map (\<lambda>row. concat (map (\<lambda>col. formatCell
                                        (if row < length (columns ! col)
                                         then columns ! col ! row else '''')
                                        25 @ ''  '')
                                [0..<length columns]) @ [CHR 0x0A])
                   [0..<nat H]))"
    unfolding render_rows_closed [OF len z, of "[]"]
    by (auto intro!: arg_cong [where f = concat] map_cong)
  with full show ?thesis by simp
qed

theorem render_output_witness:
  "int (length [[''ab'', ''c'', ''zz''], [''d'']]) = 2
   \<and> render_rows [[''ab'', ''c'', ''zz''], [''d'']] 2 2 0 []
       = Inr (''ab'' @ replicate 23 (CHR '' '') @ ''  '' @ ''d'' @ replicate 24 (CHR '' '') @ ''  ''
              @ [CHR 0x0A]
              @ ''c'' @ replicate 24 (CHR '' '') @ ''  '' @ replicate 25 (CHR '' '') @ ''  ''
              @ [CHR 0x0A])
   \<and> render_rows [[''ab'', ''c''], [''d'']] 2 2 0 []
       = render_rows [[''ab'', ''c'', ''zz''], [''d'']] 2 2 0 []"
proof -
  have a: "int (length [[''ab'', ''c'', ''zz''], [''d'']]) = 2" by simp
  have cells: "formatCell ''ab'' 25 = ''ab'' @ replicate 23 (CHR '' '')"
    "formatCell ''c'' 25 = ''c'' @ replicate 24 (CHR '' '')"
    "formatCell ''d'' 25 = ''d'' @ replicate 24 (CHR '' '')"
    "formatCell [] 25 = replicate 25 (CHR '' '')"
    by (simp_all add: formatCell_def runeSize_def leadInfo_def)
  from render_output [OF a, of 2] show ?thesis
    by (simp add: numeral_2_eq_2 cells del: replicate_Suc replicate.simps)
qed

section \<open>The whole layout routine\<close>

lemma go_div_nonneg: "0 \<le> a \<Longrightarrow> 0 < b \<Longrightarrow> go_div a b = a div b"
  by (simp add: go_div_def)

lemma numDisplayColumns_nonneg:
  assumes "0 \<le> w"
  shows "numDisplayColumns w = max 1 (w div 27)"
proof -
  have "0 \<le> w div 27" using assms by (simp add: pos_imp_zdiv_nonneg_iff)
  then show ?thesis
    using assms
    by (auto simp: numDisplayColumns_def fullColumnWidth_def columnWidth_def columnSpacing_def
        go_div_nonneg Let_def max_def)
qed

lemma numDisplayColumns_negative:
  assumes "w \<le> - 27"
  shows "numDisplayColumns w < 0"
proof -
  have "1 \<le> (- w) div 27"
    using assms by (simp add: pos_imp_zdiv_pos_iff)
  then show ?thesis
    using assms
    by (simp add: numDisplayColumns_def fullColumnWidth_def columnWidth_def columnSpacing_def
        go_div_def Let_def)
qed

lemma shortcut_loop_mono: "t \<le> snd (shortcut_loop ss i (bs, t))"
proof (induction ss arbitrary: bs t)
  case Nil
  show ?case by simp
next
  case (Cons s ss)
  have "t \<le> t + int (length (shortcutBlock s))" by simp
  also note Cons.IH
  finally show ?case by simp
qed

lemma length_headerBlock: "3 \<le> length (headerBlock i c)"
  by (simp add: headerBlock_def)

lemma category_loop_mono: "t + 3 * int (length cs) \<le> snd (category_loop cs i m (bs, t))"
proof (induction cs arbitrary: i bs t)
  case Nil
  show ?case by simp
next
  case (Cons c cs)
  let ?bs = "bs @ [\<lparr>lines = headerBlock i c, isHeader = True, categoryId = i\<rparr>]"
  let ?t = "t + int (length (headerBlock i c))"
  obtain bs' t' where r: "shortcut_loop (lookup m c) i (?bs, ?t) = (bs', t')"
    by (cases "shortcut_loop (lookup m c) i (?bs, ?t)")
  have "?t \<le> t'"
    using shortcut_loop_mono [of ?t "lookup m c" i ?bs] r by simp
  then have "t + 3 \<le> t'"
    using length_headerBlock [of i c] by simp
  then have "t + 3 * int (length (c # cs)) \<le> t' + 3 * int (length cs)"
    by simp
  also note Cons.IH [of t' "i + 1" bs']
  finally show ?case
    using r by simp
qed

lemma buildBlocks_positive: "18 \<le> snd (buildBlocks allShortcuts)"
  using category_loop_mono [of 0 orderedCategories 0 "categorize allShortcuts Map.empty" "[]"]
  by (simp add: buildBlocks_def orderedCategories_def)

lemma display_negative_width:
  assumes "w \<le> - 27"
  shows "displayShortcutsInColumns allShortcuts w = Inl MakesliceLenOutOfRange"
proof -
  obtain bs t where b: "buildBlocks allShortcuts = (bs, t)"
    by (cases "buildBlocks allShortcuts")
  then have "t \<noteq> 0" using buildBlocks_positive [of allShortcuts] by simp
  moreover have "make_columns (numDisplayColumns w) = Inl MakesliceLenOutOfRange"
    using numDisplayColumns_negative [OF assms] by (simp add: make_columns_def)
  ultimately show ?thesis
    using b by (simp add: displayShortcutsInColumns_def distribute_def Let_def)
qed






text \<open>
  C5. The claim: for every terminal width the number of columns is the width divided by
  27, floored, and at least 1, and allocating the columns never fails. For a width that is
  not negative the number is the claimed one (lemma \<open>numDisplayColumns_nonneg\<close>), and
  width 80 gives 2 columns. Line
  137 replaces only the quotient 0 by 1: at the width \<open>-27\<close> the quotient is \<open>-1\<close>,
  \<^verbatim>\<open>make\<close> panics on the negative length, and \<^verbatim>\<open>main\<close> ends in that panic after its first
  newline.
\<close>

theorem negative_width_panics:
  "numDisplayColumns (- 27) = - 1
   \<and> make_columns (numDisplayColumns (- 27)) = Inl MakesliceLenOutOfRange
   \<and> main_prog (- 27) = ([CHR 0x0A], Some MakesliceLenOutOfRange)
   \<and> numDisplayColumns 80 = 2"
proof -
  have a: "numDisplayColumns (- 27) = - 1"
    by (simp add: numDisplayColumns_def fullColumnWidth_def columnWidth_def columnSpacing_def
        go_div_def)
  have b: "numDisplayColumns 80 = 2"
    by (simp add: numDisplayColumns_nonneg)
  have c: "main_prog (- 27) = ([CHR 0x0A], Some MakesliceLenOutOfRange)"
    by (simp add: main_prog_def display_negative_width)
  from a b c show ?thesis
    by (simp add: make_columns_def)
qed

section \<open>The keys \<^verbatim>\<open>main\<close> displays\<close>

declare replaceKeys.simps [simp del]

lemma replaceKeys_map:
  "replaceKeys i shortcuts =
     take i shortcuts
     @ map (\<lambda>s. s\<lparr>Key := Replace (Key s) ''Prefix'' ''ctrl+b''\<rparr>) (drop i shortcuts)"
proof (induction i shortcuts rule: replaceKeys.induct)
  case (1 i shortcuts)
  let ?f = "\<lambda>s. s\<lparr>Key := Replace (Key s) ''Prefix'' ''ctrl+b''\<rparr>"
  show ?case
  proof (cases "i < length shortcuts")
    case False
    then show ?thesis by (subst replaceKeys.simps) simp
  next
    case True
    let ?ss = "shortcuts[i := ?f (shortcuts ! i)]"
    have "replaceKeys i shortcuts = replaceKeys (i + 1) ?ss"
      using True by (subst replaceKeys.simps) simp
    also have "\<dots> = take (i + 1) ?ss @ map ?f (drop (i + 1) ?ss)"
      using "1.IH" [OF True] by simp
    also have "take (i + 1) ?ss = take i shortcuts @ [?f (shortcuts ! i)]"
      using True by (simp add: take_Suc_conv_app_nth)
    also have "drop (i + 1) ?ss = drop (i + 1) shortcuts"
      by simp
    finally show ?thesis
      using True by (simp add: Cons_nth_drop_Suc [symmetric])
  qed
qed













lemma displayed_keys:
  "map Key (replaceKeys 0 getStaticShortcuts) =
    [''ctrl+b d'', ''ctrl+b s'', ''ctrl+b $'', ''ctrl+b c'', ''ctrl+b ,'', ''ctrl+b w'',
     ''ctrl+b f'', ''ctrl+b &'', ''ctrl+b .'', ''ctrl+b p'', ''ctrl+b n'', ''ctrl+b 0-9'',
     ''ctrl+b l'', ''ctrl+b %'', ''ctrl+b '' @ [CHR 0x22], ''ctrl+b o'', ''ctrl+b ;'',
     ''ctrl+b Arrow'', ''ctrl+b x'', ''ctrl+b {'', ''ctrl+b }'', ''ctrl+b Space'', ''ctrl+b z'',
     ''ctrl+b !'', ''ctrl+b q'', ''ctrl+b ['', ''v'', ''y'', ''ctrl+b ]'', ''ctrl+b t'',
     ''ctrl+b :'', ''ctrl+b ?'']"
  by (simp add: replaceKeys_map getStaticShortcuts_def mk_def Replace_def)

end
